theory Spec2Isabelle
  imports Main
begin

section \<open>The compile unit of elftools/dwarf/compileunit.py\<close>

text \<open>
  A shallow embedding of class \<open>CompileUnit\<close>. An instance is a record with the
  seven attributes that \<open>__init__\<close> sets; a method is a function from the instance to
  the instance as the call leaves it, together with the calls the method made and its outcome.
  An exception is the left injection of a sum, and the instance returned beside it is the
  instance at the moment the exception was raised: Python does not undo the appends made before.
  The instance is mutable and is handed to the constructor of every entry, so whatever is
  called with it returns the instance as it leaves it, like a method.
  Integers are Python's unbounded integers, hence \<open>int\<close>.

  Isabelle names cannot begin with an underscore: \<open>_abbrev_table\<close>, \<open>_dielist\<close>,
  \<open>_get_DIE\<close> and \<open>_parse_DIEs\<close> are written without it, \<open>__init__\<close> is
  \<open>init\<close> and \<open>__getitem__\<close> is \<open>getitem\<close>.
\<close>

subsection \<open>Exceptions and observed calls\<close>

text \<open>
  \<open>KeyError\<close> is what \<open>self.header[name]\<close> raises for an absent name (the
  specification calls it MissingField), \<open>IndexError\<close> what \<open>self._dielist[index]\<close>
  raises out of range (IndexOutOfRange). \<open>Raised\<close> is any exception raised by a
  collaborator, by name. No statement of compileunit.py raises an exception of its own, so
  the two further names of the specification can only come from a collaborator.
\<close>

datatype exn = KeyError string | IndexError | Raised string

definition TruncatedRecord :: exn where
  "TruncatedRecord = Raised ''TruncatedRecord''"

definition CorruptUnit :: exn where
  "CorruptUnit = Raised ''CorruptUnit''"

text \<open>
  The calls a method makes, in order: to the resolver \<open>dwarfinfo.get_abbrev_table\<close>
  with its argument, to \<open>_parse_DIEs\<close>, and to the constructor \<open>DIE\<close> with its
  offset and the calls that the constructor made in turn. They are what a call-count
  probe would record.
\<close>

datatype call = Call_get_abbrev_table int | Call_parse_DIEs | Call_DIE int "call list"

subsection \<open>Collaborators\<close>

text \<open>
  Class \<open>DIE\<close> (die.py), the context \<open>DWARFInfo\<close> and \<open>DWARFStructs\<close> are not
  part of compileunit.py. Of a decoded entry the unit reads only \<open>size\<close>; of the context
  only \<open>stream\<close> and \<open>get_abbrev_table\<close>; of the structs only
  \<open>initial_length_field_size()\<close>. The resolver returns a Python value, which may be
  \<open>None\<close>, or raises. The constructor \<open>DIE(cu, stream, offset)\<close> is a parameter of
  the walk (type \<open>decoder\<close> below): it is handed the unit itself, which it may read,
  change and call, so it returns the unit as it leaves it and the calls it made, beside the
  entry or the exception. The comment on \<open>_abbrev_table\<close> says that the table is
  filled when entries are requested.
\<close>

record 'p die =
  die_size :: int
  die_content :: 'p

record ('s, 'a) DWARFInfo =
  stream :: 's
  dwarfinfo_get_abbrev_table :: "int \<Rightarrow> exn + 'a option"

record DWARFStructs =
  initial_length_field_size :: int

subsection \<open>The class\<close>

record ('s, 'a, 'p) CompileUnit =
  dwarfinfo :: "('s, 'a) DWARFInfo"
  header :: "string \<rightharpoonup> int"
  structs :: DWARFStructs
  cu_offset :: int
  cu_die_offset :: int
  abbrev_table :: "'a option"
  dielist :: "'p die list"

type_synonym ('s, 'a, 'p, 'r) outcome =
  "('s, 'a, 'p) CompileUnit \<times> call list \<times> (exn + 'r)"

type_synonym ('s, 'a, 'p) decoder =
  "('s, 'a, 'p) CompileUnit \<Rightarrow> 's \<Rightarrow> int \<Rightarrow> ('s, 'a, 'p, 'p die) outcome"

definition init ::
  "(string \<rightharpoonup> int) \<Rightarrow> ('s, 'a) DWARFInfo \<Rightarrow> DWARFStructs \<Rightarrow> int \<Rightarrow> int
     \<Rightarrow> ('s, 'a, 'p) CompileUnit" where
  "init hdr dw sts cu_off cu_die_off =
     \<lparr>dwarfinfo = dw, header = hdr, structs = sts, cu_offset = cu_off,
      cu_die_offset = cu_die_off, abbrev_table = None, dielist = []\<rparr>"

definition getitem :: "('s, 'a, 'p) CompileUnit \<Rightarrow> string \<Rightarrow> exn + int" where
  "getitem self name =
     (case header self name of None \<Rightarrow> Inl (KeyError name) | Some v \<Rightarrow> Inr v)"

text \<open>
  \<open>get_abbrev_table\<close>: the argument \<open>self['debug_abbrev_offset']\<close> is evaluated before
  the resolver is called, so a missing field raises without a call. Whatever the resolver
  returns is stored and returned, \<open>None\<close> too; the test \<open>is None\<close> then takes a stored
  \<open>None\<close> for an empty cache.
\<close>

definition get_abbrev_table ::
  "('s, 'a, 'p) CompileUnit \<Rightarrow> ('s, 'a, 'p, 'a option) outcome" where
  "get_abbrev_table self =
     (case abbrev_table self of
        Some t \<Rightarrow> (self, [], Inr (Some t))
      | None \<Rightarrow>
          (case getitem self ''debug_abbrev_offset'' of
             Inl e \<Rightarrow> (self, [], Inl e)
           | Inr off \<Rightarrow>
               (case dwarfinfo_get_abbrev_table (dwarfinfo self) off of
                  Inl e \<Rightarrow> (self, [Call_get_abbrev_table off], Inl e)
                | Inr v \<Rightarrow>
                    (self\<lparr>abbrev_table := v\<rparr>, [Call_get_abbrev_table off], Inr v))))"

text \<open>The first statement of \<open>_parse_DIEs\<close>: the local variable \<open>cu_boundary\<close>.\<close>

definition cu_boundary :: "('s, 'a, 'p) CompileUnit \<Rightarrow> exn + int" where
  "cu_boundary self =
     (case getitem self ''unit_length'' of
        Inl e \<Rightarrow> Inl e
      | Inr unit_length \<Rightarrow>
          Inr (cu_offset self + unit_length + initial_length_field_size (structs self)))"

text \<open>
  The \<open>while\<close> loop of \<open>_parse_DIEs\<close>, from the cursor \<open>die_offset\<close>. The
  argument \<open>self.dwarfinfo.stream\<close> is read before the constructor runs; the entry is
  appended to the list of the unit as the constructor left it. The sizes come from the
  decoder, so the loop need not end: the result \<open>None\<close> is a walk that never returns.
\<close>

partial_function (option) parse_loop ::
  "('s, 'a, 'p) decoder \<Rightarrow> int \<Rightarrow> int \<Rightarrow> ('s, 'a, 'p) CompileUnit
     \<Rightarrow> ('s, 'a, 'p, unit) outcome option" where
  "parse_loop DIE boundary die_offset self =
     (if die_offset < boundary then
        (case DIE self (stream (dwarfinfo self)) die_offset of
           (self1, cs, Inl e) \<Rightarrow> Some (self1, [Call_DIE die_offset cs], Inl e)
         | (self1, cs, Inr d) \<Rightarrow>
             Option.bind
               (parse_loop DIE boundary (die_offset + die_size d)
                  (self1\<lparr>dielist := dielist self1 @ [d]\<rparr>))
               (\<lambda>(self', calls, r). Some (self', Call_DIE die_offset cs # calls, r)))
      else Some (self, [], Inr ()))"

definition parse_DIEs ::
  "('s, 'a, 'p) decoder \<Rightarrow> ('s, 'a, 'p) CompileUnit \<Rightarrow> ('s, 'a, 'p, unit) outcome option" where
  "parse_DIEs DIE self =
     (case cu_boundary self of
        Inl e \<Rightarrow> Some (self, [Call_parse_DIEs], Inl e)
      | Inr boundary \<Rightarrow>
          Option.bind (parse_loop DIE boundary (cu_die_offset self) self)
            (\<lambda>(self', calls, r). Some (self', Call_parse_DIEs # calls, r)))"

text \<open>Indexing a Python list: a negative index counts from the end.\<close>

definition list_getitem :: "'x list \<Rightarrow> int \<Rightarrow> exn + 'x" where
  "list_getitem xs i =
     (let n = int (length xs); j = (if i < 0 then i + n else i)
      in if 0 \<le> j \<and> j < n then Inr (xs ! nat j) else Inl IndexError)"

definition get_DIE ::
  "('s, 'a, 'p) decoder \<Rightarrow> ('s, 'a, 'p) CompileUnit \<Rightarrow> int
     \<Rightarrow> ('s, 'a, 'p, 'p die) outcome option" where
  "get_DIE DIE self index =
     (if length (dielist self) = 0 then
        Option.bind (parse_DIEs DIE self)
          (\<lambda>(self', calls, r).
             case r of
               Inl e \<Rightarrow> Some (self', calls, Inl e)
             | Inr _ \<Rightarrow> Some (self', calls, list_getitem (dielist self') index))
      else Some (self, [], list_getitem (dielist self) index))"

definition get_top_DIE ::
  "('s, 'a, 'p) decoder \<Rightarrow> ('s, 'a, 'p) CompileUnit \<Rightarrow> ('s, 'a, 'p, 'p die) outcome option" where
  "get_top_DIE DIE self = get_DIE DIE self 0"

subsection \<open>Vocabulary of the properties\<close>

text \<open>
  The offsets at which a list of entries is decoded from a cursor, and the bytes they
  cover.
\<close>

fun die_offsets :: "int \<Rightarrow> 'p die list \<Rightarrow> int list" where
  "die_offsets off [] = []"
| "die_offsets off (d # ds) = off # die_offsets (off + die_size d) ds"

definition sizes :: "'p die list \<Rightarrow> int" where
  "sizes ds = sum_list (map die_size ds)"

text \<open>
  \<open>chain DIE boundary off self ds = Some (u, calls)\<close>: from the cursor \<open>off\<close> the loop
  decodes exactly the entries \<open>ds\<close>, one after the other, each inside the boundary and
  from the unit as the calls and appends before it left it; \<open>u\<close> is the unit after the
  last append and \<open>calls\<close> are the constructor calls, in order.
\<close>

fun chain ::
  "('s, 'a, 'p) decoder \<Rightarrow> int \<Rightarrow> int \<Rightarrow> ('s, 'a, 'p) CompileUnit \<Rightarrow> 'p die list
     \<Rightarrow> (('s, 'a, 'p) CompileUnit \<times> call list) option" where
  "chain DIE boundary off self [] = Some (self, [])"
| "chain DIE boundary off self (d # ds) =
     (if off < boundary then
        (case DIE self (stream (dwarfinfo self)) off of
           (self1, cs, Inl e) \<Rightarrow> None
         | (self1, cs, Inr d') \<Rightarrow>
             if d' = d then
               map_option (\<lambda>(u, calls). (u, Call_DIE off cs # calls))
                 (chain DIE boundary (off + die_size d)
                    (self1\<lparr>dielist := dielist self1 @ [d]\<rparr>) ds)
             else None)
      else None)"

text \<open>What a returned walk from \<open>off\<close> looks like, for the entries \<open>ds\<close> it decoded.\<close>

definition walked ::
  "('s, 'a, 'p) decoder \<Rightarrow> int \<Rightarrow> int \<Rightarrow> ('s, 'a, 'p) CompileUnit \<Rightarrow>
   ('s, 'a, 'p, unit) outcome \<Rightarrow> 'p die list \<Rightarrow> bool" where
  "walked DIE b off self y ds \<longleftrightarrow>
     (case snd (snd y) of
        Inr _ \<Rightarrow> chain DIE b off self ds = Some (fst y, fst (snd y)) \<and> b \<le> off + sizes ds
      | Inl e \<Rightarrow>
          (\<exists>u cs cs'. chain DIE b off self ds = Some (u, cs) \<and> off + sizes ds < b \<and>
             DIE u (stream (dwarfinfo u)) (off + sizes ds) = (fst y, cs', Inl e) \<and>
             fst (snd y) = cs @ [Call_DIE (off + sizes ds) cs']))"


text \<open>
  A decoder that leaves the list of entries to the unit, which owns it, and a decoder that
  leaves the whole unit alone and calls nothing.
\<close>

definition leaves_dielist :: "('s, 'a, 'p) decoder \<Rightarrow> bool" where
  "leaves_dielist DIE \<longleftrightarrow> (\<forall>c s off. dielist (fst (DIE c s off)) = dielist c)"

definition silent ::
  "(('s, 'a, 'p) CompileUnit \<Rightarrow> 's \<Rightarrow> int \<Rightarrow> exn + 'p die) \<Rightarrow> ('s, 'a, 'p) decoder" where
  "silent f c s off = (c, [], f c s off)"

subsection \<open>Concrete units and decoders\<close>

text \<open>
  The unit of the scenario: \<open>unit_length = 40\<close>, a length prefix of 4 bytes, the header
  at offset 0 and the top entry at offset 11.
\<close>

definition dw0 :: "(unit, int) DWARFInfo" where
  "dw0 = \<lparr>stream = (), dwarfinfo_get_abbrev_table = (\<lambda>off. Inr (Some (off + 1000)))\<rparr>"

definition cu0 :: "(unit, int, string) CompileUnit" where
  "cu0 = init [''unit_length'' \<mapsto> 40, ''debug_abbrev_offset'' \<mapsto> 7] dw0
           \<lparr>initial_length_field_size = 4\<rparr> 0 11"

definition die0 :: "int \<Rightarrow> string \<Rightarrow> string die" where
  "die0 n name = \<lparr>die_size = n, die_content = name\<rparr>"

text \<open>Entries of 5, 20 and 8 bytes at the offsets 11, 16 and 36.\<close>

definition entry3 :: "int \<Rightarrow> exn + string die" where
  "entry3 off =
     (if off = 11 then Inr (die0 5 ''top'')
      else if off = 16 then Inr (die0 20 ''child'')
      else if off = 36 then Inr (die0 8 ''last'')
      else Inl (Raised ''DecodeError''))"

definition dec3 :: "(unit, int, string) decoder" where
  "dec3 = silent (\<lambda>c s. entry3)"

text \<open>
  The same entries from a constructor that first requests the abbreviation table of the
  unit it is handed.
\<close>

definition dec_schema :: "(unit, int, string) decoder" where
  "dec_schema c s off =
     (case get_abbrev_table c of
        (c1, cs, Inl e) \<Rightarrow> (c1, cs, Inl e)
      | (c1, cs, Inr t) \<Rightarrow> (c1, cs, entry3 off))"

text \<open>
  A unit that is a header and nothing else: \<open>unit_length = 7\<close> counts the header fields
  after the length prefix, so the boundary \<open>0 + 7 + 4 = 11\<close> is the offset where the top
  entry would begin. In \<open>cu_short\<close> the boundary, 4, lies before that offset.
\<close>

definition cu_header_only :: "(unit, int, string) CompileUnit" where
  "cu_header_only = init [''unit_length'' \<mapsto> 7, ''debug_abbrev_offset'' \<mapsto> 7] dw0
           \<lparr>initial_length_field_size = 4\<rparr> 0 11"

definition cu_short :: "(unit, int, string) CompileUnit" where
  "cu_short = init [''unit_length'' \<mapsto> 0, ''debug_abbrev_offset'' \<mapsto> 7] dw0
           \<lparr>initial_length_field_size = 4\<rparr> 0 11"

text \<open>
  Three decoders that agree with \<open>dec3\<close> on the top entry. At offset 16 the first
  reports an entry of size 0, the second an entry of 100 bytes, past the boundary 44, and
  the third raises.
\<close>

definition dec_zero :: "(unit, int, string) decoder" where
  "dec_zero = silent (\<lambda>c s off.
     if off = 11 then Inr (die0 5 ''top'')
     else if off = 16 then Inr (die0 0 ''stuck'')
     else Inl (Raised ''DecodeError''))"

definition dec_over :: "(unit, int, string) decoder" where
  "dec_over = silent (\<lambda>c s off.
     if off = 11 then Inr (die0 5 ''top'')
     else if off = 16 then Inr (die0 100 ''big'')
     else Inl (Raised ''DecodeError''))"

definition dec_fail :: "(unit, int, string) decoder" where
  "dec_fail = silent (\<lambda>c s off.
     if off = 11 then Inr (die0 5 ''top'') else Inl (Raised ''DecodeError''))"

text \<open>A unit whose header lacks \<open>unit_length\<close>, and one whose resolver returns \<open>None\<close>.\<close>

definition cu_unsized :: "(unit, int, string) CompileUnit" where
  "cu_unsized = init [''debug_abbrev_offset'' \<mapsto> 7] dw0 \<lparr>initial_length_field_size = 4\<rparr> 0 11"

definition cu_none :: "(unit, int, string) CompileUnit" where
  "cu_none = init [''unit_length'' \<mapsto> 40, ''debug_abbrev_offset'' \<mapsto> 7]
           \<lparr>stream = (), dwarfinfo_get_abbrev_table = (\<lambda>off. Inr None)\<rparr>
           \<lparr>initial_length_field_size = 4\<rparr> 0 11"


section \<open>The loop\<close>

lemma sizes_Nil [simp]: "sizes [] = 0"
  by (simp add: sizes_def)

lemma sizes_Cons [simp]: "sizes (d # ds) = die_size d + sizes ds"
  by (simp add: sizes_def)

lemma sizes_append [simp]: "sizes (xs @ ys) = sizes xs + sizes ys"
  by (simp add: sizes_def)

lemma length_die_offsets [simp]: "length (die_offsets off ds) = length ds"
  by (induction ds arbitrary: off) simp_all

lemma parse_loop_done:
  "\<not> off < b \<Longrightarrow> parse_loop DIE b off self = Some (self, [], Inr ())"
  by (subst parse_loop.simps) simp

lemma parse_loop_raise:
  "off < b \<Longrightarrow> DIE self (stream (dwarfinfo self)) off = (self1, cs, Inl e) \<Longrightarrow>
   parse_loop DIE b off self = Some (self1, [Call_DIE off cs], Inl e)"
  by (subst parse_loop.simps) simp

lemma parse_loop_step:
  "off < b \<Longrightarrow> DIE self (stream (dwarfinfo self)) off = (self1, cs, Inr d) \<Longrightarrow>
   parse_loop DIE b off self =
     Option.bind (parse_loop DIE b (off + die_size d) (self1\<lparr>dielist := dielist self1 @ [d]\<rparr>))
       (\<lambda>(self', calls, r). Some (self', Call_DIE off cs # calls, r))"
  by (subst parse_loop.simps) simp

lemma chain_Cons:
  "off < b \<Longrightarrow> DIE self (stream (dwarfinfo self)) off = (self1, cs, Inr d) \<Longrightarrow>
   chain DIE b off self (d # ds) =
     map_option (\<lambda>(u, calls). (u, Call_DIE off cs # calls))
       (chain DIE b (off + die_size d) (self1\<lparr>dielist := dielist self1 @ [d]\<rparr>) ds)"
  by simp

lemma chain_ConsE:
  assumes "chain DIE b off self (d # ds) = Some (u, calls)"
  obtains self1 cs calls' where "off < b"
    and "DIE self (stream (dwarfinfo self)) off = (self1, cs, Inr d)"
    and "chain DIE b (off + die_size d) (self1\<lparr>dielist := dielist self1 @ [d]\<rparr>) ds
           = Some (u, calls')"
    and "calls = Call_DIE off cs # calls'"
proof -
  from assms have lt: "off < b" by (simp split: if_splits)
  obtain self1 cs r where D: "DIE self (stream (dwarfinfo self)) off = (self1, cs, r)"
    by (metis prod_cases3)
  with assms lt obtain d' where r: "r = Inr d'" by (cases r) simp_all
  with assms lt D have dd: "d' = d" by (simp split: if_splits)
  with assms lt D r obtain calls' where
    "chain DIE b (off + die_size d) (self1\<lparr>dielist := dielist self1 @ [d]\<rparr>) ds = Some (u, calls')"
    "calls = Call_DIE off cs # calls'"
    by auto
  with lt D r dd that show thesis by blast
qed

declare chain.simps(2) [simp del]

lemma walked_Nil_done: "\<not> off < b \<Longrightarrow> walked DIE b off self (self, [], Inr ()) []"
  by (simp add: walked_def)

lemma walked_Nil_raise:
  "off < b \<Longrightarrow> DIE self (stream (dwarfinfo self)) off = (self1, cs, Inl e) \<Longrightarrow>
   walked DIE b off self (self1, [Call_DIE off cs], Inl e) []"
  by (simp add: walked_def)

lemma walked_Cons:
  assumes lt: "off < b" and D: "DIE self (stream (dwarfinfo self)) off = (self1, cs, Inr d)"
    and w: "walked DIE b (off + die_size d) (self1\<lparr>dielist := dielist self1 @ [d]\<rparr>)
           (self', calls, r) ds"
  shows "walked DIE b off self (self', Call_DIE off cs # calls, r) (d # ds)"
proof (cases r)
  case (Inr x)
  with w have "chain DIE b (off + die_size d) (self1\<lparr>dielist := dielist self1 @ [d]\<rparr>) ds
      = Some (self', calls)" and "b \<le> off + die_size d + sizes ds"
    by (simp_all add: walked_def)
  with Inr show ?thesis
    by (simp add: walked_def chain_Cons[where DIE = DIE and self = self, OF lt D] add.assoc)
next
  case (Inl e)
  with w obtain u cs1 cs' where
    c: "chain DIE b (off + die_size d) (self1\<lparr>dielist := dielist self1 @ [d]\<rparr>) ds = Some (u, cs1)"
    and l: "off + die_size d + sizes ds < b"
    and e: "DIE u (stream (dwarfinfo u)) (off + die_size d + sizes ds) = (self', cs', Inl e)"
    and k: "calls = cs1 @ [Call_DIE (off + die_size d + sizes ds) cs']"
    by (auto simp: walked_def)
  have "chain DIE b off self (d # ds) = Some (u, Call_DIE off cs # cs1)"
    by (simp add: chain_Cons[where DIE = DIE and self = self, OF lt D] c)
  moreover have "off + sizes (d # ds) < b" using l by (simp add: add.assoc)
  moreover have "DIE u (stream (dwarfinfo u)) (off + sizes (d # ds)) = (self', cs', Inl e)"
    using e by (simp add: add.assoc)
  moreover have "Call_DIE off cs # calls =
      (Call_DIE off cs # cs1) @ [Call_DIE (off + sizes (d # ds)) cs']"
    using k by (simp add: add.assoc)
  ultimately show ?thesis
    unfolding walked_def using Inl by (simp del: sizes_Cons)
qed

text \<open>Every walk that returns has decoded a chain of entries.\<close>

lemma parse_loop_sound:
  assumes "parse_loop DIE b off self = Some y"
  shows "\<exists>ds. walked DIE b off self y ds"
  using assms
proof (induction rule: parse_loop.raw_induct[rotated 1, consumes 1])
  case (1 f DIE b off self y)
  show ?case
  proof (cases "off < b")
    case False
    with 1(2) have "y = (self, [], Inr ())" by simp
    with False walked_Nil_done show ?thesis by blast
  next
    case True
    obtain self1 cs r where D: "DIE self (stream (dwarfinfo self)) off = (self1, cs, r)"
      by (metis prod_cases3)
    show ?thesis
    proof (cases r)
      case (Inl e)
      with True D 1(2) have "y = (self1, [Call_DIE off cs], Inl e)" by simp
      with True D Inl walked_Nil_raise show ?thesis by blast
    next
      case (Inr d)
      let ?self1 = "self1\<lparr>dielist := dielist self1 @ [d]\<rparr>"
      from True D Inr 1(2) have
        "Option.bind (f DIE b (off + die_size d) ?self1)
           (\<lambda>(self', calls, r). Some (self', Call_DIE off cs # calls, r)) = Some y"
        by simp
      then obtain self' calls r' where
        y1: "f DIE b (off + die_size d) ?self1 = Some (self', calls, r')" and
        y: "y = (self', Call_DIE off cs # calls, r')"
        by (cases "f DIE b (off + die_size d) ?self1") auto
      from 1(1)[OF y1] obtain ds where
        "walked DIE b (off + die_size d) ?self1 (self', calls, r') ds" by blast
      from walked_Cons[OF True D[unfolded Inr] this] y show ?thesis by blast
    qed
  qed
qed

text \<open>Conversely a chain of entries that reaches the boundary, or a raise, fixes the walk.\<close>

lemma parse_loop_complete_ok:
  "chain DIE b off self ds = Some (u, calls) \<Longrightarrow> b \<le> off + sizes ds \<Longrightarrow>
   parse_loop DIE b off self = Some (u, calls, Inr ())"
proof (induction ds arbitrary: off self calls)
  case Nil
  then show ?case by (simp add: parse_loop_done)
next
  case (Cons d ds)
  from Cons.prems(1) obtain self1 cs calls' where lt: "off < b"
    and D: "DIE self (stream (dwarfinfo self)) off = (self1, cs, Inr d)"
    and rest: "chain DIE b (off + die_size d) (self1\<lparr>dielist := dielist self1 @ [d]\<rparr>) ds
           = Some (u, calls')"
    and k: "calls = Call_DIE off cs # calls'"
    by (rule chain_ConsE)
  from Cons.prems(2) have le: "b \<le> off + die_size d + sizes ds" by (simp add: add.assoc)
  show ?case
    by (simp add: parse_loop_step[where DIE = DIE and self = self, OF lt D]
        Cons.IH[OF rest le] k)
qed

lemma parse_loop_complete_raise:
  "chain DIE b off self ds = Some (u, calls) \<Longrightarrow> off + sizes ds < b \<Longrightarrow>
   DIE u (stream (dwarfinfo u)) (off + sizes ds) = (u', cs', Inl e) \<Longrightarrow>
   parse_loop DIE b off self = Some (u', calls @ [Call_DIE (off + sizes ds) cs'], Inl e)"
proof (induction ds arbitrary: off self calls)
  case Nil
  then have u: "u = self" and k: "calls = []" and lt: "off < b"
    and e: "DIE self (stream (dwarfinfo self)) off = (u', cs', Inl e)"
    by simp_all
  from parse_loop_raise[where DIE = DIE and self = self, OF lt e] k show ?case by simp
next
  case (Cons d ds)
  from Cons.prems(1) obtain self1 cs calls' where lt: "off < b"
    and D: "DIE self (stream (dwarfinfo self)) off = (self1, cs, Inr d)"
    and rest: "chain DIE b (off + die_size d) (self1\<lparr>dielist := dielist self1 @ [d]\<rparr>) ds
           = Some (u, calls')"
    and k: "calls = Call_DIE off cs # calls'"
    by (rule chain_ConsE)
  from Cons.prems(2) have le: "off + die_size d + sizes ds < b" by (simp add: add.assoc)
  from Cons.prems(3) have
    e: "DIE u (stream (dwarfinfo u)) (off + die_size d + sizes ds) = (u', cs', Inl e)"
    by (simp add: add.assoc)
  show ?case
    by (simp add: parse_loop_step[where DIE = DIE and self = self, OF lt D]
        Cons.IH[OF rest le e] k add.assoc)
qed

text \<open>The same for the whole of \<open>_parse_DIEs\<close>.\<close>

lemma parse_DIEs_sound:
  assumes "parse_DIEs DIE self = Some (self', calls, r)"
  shows "(\<exists>e. cu_boundary self = Inl e \<and> self' = self \<and> calls = [Call_parse_DIEs] \<and> r = Inl e) \<or>
         (\<exists>b calls' ds. cu_boundary self = Inr b \<and> calls = Call_parse_DIEs # calls' \<and>
            walked DIE b (cu_die_offset self) self (self', calls', r) ds)"
proof (cases "cu_boundary self")
  case (Inl e)
  with assms show ?thesis by (simp add: parse_DIEs_def)
next
  case (Inr b)
  with assms obtain calls' where
    y: "parse_loop DIE b (cu_die_offset self) self = Some (self', calls', r)"
    and c: "calls = Call_parse_DIEs # calls'"
    by (cases "parse_loop DIE b (cu_die_offset self) self") (auto simp: parse_DIEs_def)
  from parse_loop_sound[OF y] Inr c show ?thesis by blast
qed

lemma parse_DIEs_complete_ok:
  "cu_boundary self = Inr b \<Longrightarrow> chain DIE b (cu_die_offset self) self ds = Some (u, calls) \<Longrightarrow>
   b \<le> cu_die_offset self + sizes ds \<Longrightarrow>
   parse_DIEs DIE self = Some (u, Call_parse_DIEs # calls, Inr ())"
  by (simp add: parse_DIEs_def parse_loop_complete_ok)

lemma parse_DIEs_complete_raise:
  "cu_boundary self = Inr b \<Longrightarrow> chain DIE b (cu_die_offset self) self ds = Some (u, calls) \<Longrightarrow>
   cu_die_offset self + sizes ds < b \<Longrightarrow>
   DIE u (stream (dwarfinfo u)) (cu_die_offset self + sizes ds) = (u', cs', Inl e) \<Longrightarrow>
   parse_DIEs DIE self =
     Some (u', Call_parse_DIEs # calls @ [Call_DIE (cu_die_offset self + sizes ds) cs'], Inl e)"
  by (simp add: parse_DIEs_def parse_loop_complete_raise)

lemma parse_DIEs_nothing:
  "cu_boundary self = Inr b \<Longrightarrow> b \<le> cu_die_offset self \<Longrightarrow>
   parse_DIEs DIE self = Some (self, [Call_parse_DIEs], Inr ())"
  by (simp add: parse_DIEs_def parse_loop_done)

section \<open>Termination and the shape of the decoded chain\<close>


lemma chain_Nil_iff: "chain DIE b off self [] = Some (u, calls) \<longleftrightarrow> u = self \<and> calls = []"
  by auto




text \<open>The calls of a chain are the constructor calls at the offsets of its entries.\<close>

lemma chain_calls:
  "chain DIE b off self ds = Some (u, calls) \<Longrightarrow>
   \<exists>css. length css = length ds \<and>
     calls = map (\<lambda>(off', cs). Call_DIE off' cs) (zip (die_offsets off ds) css)"
proof (induction ds arbitrary: off self calls)
  case Nil
  then show ?case by simp
next
  case (Cons d ds)
  from Cons.prems(1) obtain self1 cs calls' where
    rest: "chain DIE b (off + die_size d) (self1\<lparr>dielist := dielist self1 @ [d]\<rparr>) ds
           = Some (u, calls')"
    and k: "calls = Call_DIE off cs # calls'"
    by (rule chain_ConsE)
  from Cons.IH[OF rest] obtain css where "length css = length ds"
    and "calls' = map (\<lambda>(off', cs). Call_DIE off' cs) (zip (die_offsets (off + die_size d) ds) css)"
    by blast
  with k have "length (cs # css) = length (d # ds) \<and>
      calls = map (\<lambda>(off', cs). Call_DIE off' cs) (zip (die_offsets off (d # ds)) (cs # css))"
    by simp
  then show ?case by blast
qed


text \<open>The last thing a chain does is an append.\<close>

lemma chain_nonempty:
  "chain DIE b off self ds = Some (u, calls) \<Longrightarrow> ds \<noteq> [] \<Longrightarrow> dielist u \<noteq> []"
proof (induction ds arbitrary: off self calls)
  case Nil
  then show ?case by simp
next
  case (Cons d ds)
  from Cons.prems(1) obtain self1 cs calls' where
    rest: "chain DIE b (off + die_size d) (self1\<lparr>dielist := dielist self1 @ [d]\<rparr>) ds
           = Some (u, calls')"
    by (rule chain_ConsE)
  show ?case
  proof (cases "ds = []")
    case True
    with rest show ?thesis by auto
  next
    case False
    from Cons.IH[OF rest False] show ?thesis .
  qed
qed

lemma chain_leaves_dielist:
  assumes "leaves_dielist DIE"
  shows "chain DIE b off self ds = Some (u, calls) \<Longrightarrow> dielist u = dielist self @ ds"
proof (induction ds arbitrary: off self calls)
  case Nil
  then show ?case by simp
next
  case (Cons d ds)
  from Cons.prems(1) obtain self1 cs calls' where
    D: "DIE self (stream (dwarfinfo self)) off = (self1, cs, Inr d)"
    and rest: "chain DIE b (off + die_size d) (self1\<lparr>dielist := dielist self1 @ [d]\<rparr>) ds
           = Some (u, calls')"
    by (rule chain_ConsE)
  from assms have "dielist (fst (DIE self (stream (dwarfinfo self)) off)) = dielist self"
    unfolding leaves_dielist_def by blast
  with D have "dielist self1 = dielist self" by simp
  with Cons.IH[OF rest] show ?case by simp
qed

text \<open>
  A property of the unit that no append to the list changes, and that the constructor
  keeps, is kept by a chain.
\<close>

lemma chain_keeps:
  assumes app: "\<And>c ds. fld (c\<lparr>dielist := ds\<rparr>) = fld c"
    and keeps: "\<And>c s off. fld (fst (DIE c s off)) = fld c"
  shows "chain DIE b off self ds = Some (u, calls) \<Longrightarrow> fld u = fld self"
proof (induction ds arbitrary: off self calls)
  case Nil
  then show ?case by simp
next
  case (Cons d ds)
  from Cons.prems(1) obtain self1 cs calls' where
    D: "DIE self (stream (dwarfinfo self)) off = (self1, cs, Inr d)"
    and rest: "chain DIE b (off + die_size d) (self1\<lparr>dielist := dielist self1 @ [d]\<rparr>) ds
           = Some (u, calls')"
    by (rule chain_ConsE)
  from keeps[of self "stream (dwarfinfo self)" off] D have "fld self1 = fld self" by simp
  with Cons.IH[OF rest] app show ?case by simp
qed



section \<open>Decoders that leave the unit alone\<close>

lemma silent_leaves_dielist: "leaves_dielist (silent f)"
  by (simp add: leaves_dielist_def silent_def)

lemma chain_silent:
  "chain (silent f) b off self ds = Some (u, calls) \<Longrightarrow>
   u = self\<lparr>dielist := dielist self @ ds\<rparr> \<and>
   calls = map (\<lambda>off'. Call_DIE off' []) (die_offsets off ds)"
proof (induction ds arbitrary: off self calls)
  case Nil
  then show ?case by simp
next
  case (Cons d ds)
  from Cons.prems(1) obtain self1 cs calls' where
    D: "silent f self (stream (dwarfinfo self)) off = (self1, cs, Inr d)"
    and rest: "chain (silent f) b (off + die_size d) (self1\<lparr>dielist := dielist self1 @ [d]\<rparr>) ds
           = Some (u, calls')"
    and k: "calls = Call_DIE off cs # calls'"
    by (rule chain_ConsE)
  from D have "self1 = self" "cs = []" by (simp_all add: silent_def)
  with Cons.IH[OF rest] k show ?case by simp
qed

section \<open>Sizes that the walk does not check\<close>

lemma parse_loop_stuck_aux:
  assumes "parse_loop DIE b off self = Some y"
    and "off < b"
    and "\<forall>c s. \<exists>u cs d. DIE c s off = (u, cs, Inr d) \<and> die_size d = 0"
  shows False
  using assms
proof (induction rule: parse_loop.raw_induct[rotated 1, consumes 1])
  case (1 f DIE b off self y)
  from 1(4) obtain self1 cs d where
    D: "DIE self (stream (dwarfinfo self)) off = (self1, cs, Inr d)"
    and z: "die_size d = 0" by blast
  let ?self1 = "self1\<lparr>dielist := dielist self1 @ [d]\<rparr>"
  from 1(2,3) D z have
    "Option.bind (f DIE b off ?self1)
       (\<lambda>(self', calls, r). Some (self', Call_DIE off cs # calls, r)) = Some y"
    by simp
  then obtain y1 where y1: "f DIE b off ?self1 = Some y1"
    by (cases "f DIE b off ?self1") auto
  from 1(1)[OF y1 1(3,4)] show False .
qed

lemma parse_loop_stuck:
  assumes "off < b" and "\<forall>c s. \<exists>u cs d. DIE c s off = (u, cs, Inr d) \<and> die_size d = 0"
  shows "parse_loop DIE b off self = None"
proof (cases "parse_loop DIE b off self")
  case None
  then show ?thesis .
next
  case (Some y)
  from parse_loop_stuck_aux[OF Some assms] show ?thesis ..
qed

lemma parse_loop_last:
  assumes "off < b" and "DIE self (stream (dwarfinfo self)) off = (self1, cs, Inr d)"
    and "b \<le> off + die_size d"
  shows "parse_loop DIE b off self =
           Some (self1\<lparr>dielist := dielist self1 @ [d]\<rparr>, [Call_DIE off cs], Inr ())"
proof -
  have "chain DIE b off self [d] =
      Some (self1\<lparr>dielist := dielist self1 @ [d]\<rparr>, [Call_DIE off cs])"
    by (simp add: chain_Cons[where DIE = DIE and self = self, OF assms(1,2)])
  from parse_loop_complete_ok[OF this] assms(3) show ?thesis by simp
qed

lemma parse_DIEs_error_source:
  assumes "parse_DIEs DIE self = Some (self', calls, Inl e)"
  shows "e = KeyError ''unit_length'' \<or>
         (\<exists>c off cs. DIE c (stream (dwarfinfo c)) off = (self', cs, Inl e))"
  using parse_DIEs_sound[OF assms]
proof (elim disjE exE conjE)
  fix e' assume "cu_boundary self = Inl e'" "Inl e = (Inl e' :: exn + unit)"
  then have "e = KeyError ''unit_length''"
    by (auto simp: cu_boundary_def getitem_def split: option.splits)
  then show ?thesis ..
next
  fix b calls' ds
  assume w: "walked DIE b (cu_die_offset self) self (self', calls', Inl e) ds"
  then have "\<exists>c off cs. DIE c (stream (dwarfinfo c)) off = (self', cs, Inl e)"
    by (auto simp: walked_def)
  then show ?thesis ..
qed

section \<open>Indexed access and the calls of a walk\<close>

lemma get_DIE_cached:
  "dielist self \<noteq> [] \<Longrightarrow> get_DIE DIE self i = Some (self, [], list_getitem (dielist self) i)"
  by (simp add: get_DIE_def)

lemma get_DIE_parse:
  "dielist self = [] \<Longrightarrow> parse_DIEs DIE self = Some (self', calls, r) \<Longrightarrow>
   get_DIE DIE self i =
     Some (self', calls, case r of Inl e \<Rightarrow> Inl e | Inr _ \<Rightarrow> list_getitem (dielist self') i)"
  by (cases r) (simp_all add: get_DIE_def)

lemma get_DIE_parseE:
  assumes "dielist self = []" and "get_DIE DIE self i = Some (self', calls, r)"
  obtains r' where "parse_DIEs DIE self = Some (self', calls, r')"
    and "r = (case r' of Inl e \<Rightarrow> Inl e | Inr _ \<Rightarrow> list_getitem (dielist self') i)"
  using assms
  by (cases "parse_DIEs DIE self") (auto simp: get_DIE_def split: sum.splits)

lemma list_getitem_eq:
  "list_getitem xs i =
     (if - int (length xs) \<le> i \<and> i < int (length xs)
      then Inr (xs ! nat (if i < 0 then i + int (length xs) else i)) else Inl IndexError)"
  by (auto simp: list_getitem_def Let_def)

text \<open>The calls of a walk: \<open>_parse_DIEs\<close> once, then the constructor and nothing else.\<close>

lemma parse_DIEs_calls:
  assumes "parse_DIEs DIE self = Some (self', calls, r)"
  shows "\<exists>cs. calls = Call_parse_DIEs # cs \<and> (\<forall>x \<in> set cs. \<exists>off c. x = Call_DIE off c)"
  using parse_DIEs_sound[OF assms]
proof (elim disjE exE conjE)
  fix e assume "calls = [Call_parse_DIEs]"
  then show ?thesis by simp
next
  fix b calls' ds
  assume c: "calls = Call_parse_DIEs # calls'"
    and w: "walked DIE b (cu_die_offset self) self (self', calls', r) ds"
  have "\<forall>x \<in> set calls'. \<exists>off c. x = Call_DIE off c"
  proof (cases r)
    case (Inr x)
    with w have "chain DIE b (cu_die_offset self) self ds = Some (self', calls')"
      by (simp add: walked_def)
    from chain_calls[OF this] show ?thesis by (auto dest: set_zip_leftD)
  next
    case (Inl e)
    with w obtain u cs cs' where ch: "chain DIE b (cu_die_offset self) self ds = Some (u, cs)"
      and k: "calls' = cs @ [Call_DIE (cu_die_offset self + sizes ds) cs']"
      by (auto simp: walked_def)
    from chain_calls[OF ch] have "\<forall>x \<in> set cs. \<exists>off c. x = Call_DIE off c"
      by (auto dest: set_zip_leftD)
    with k show ?thesis by auto
  qed
  with c show ?thesis by simp
qed

lemma parse_DIEs_once:
  assumes "parse_DIEs DIE self = Some (self', calls, r)"
  shows "count_list calls Call_parse_DIEs = 1"
proof -
  from parse_DIEs_calls[OF assms] obtain cs where c: "calls = Call_parse_DIEs # cs"
    and a: "\<forall>x \<in> set cs. \<exists>off c. x = Call_DIE off c" by blast
  from a have "Call_parse_DIEs \<notin> set cs" by auto
  then have "count_list cs Call_parse_DIEs = 0" by (simp add: count_list_0_iff)
  with c show ?thesis by simp
qed

text \<open>A walk that returns without an exception and leaves the list empty has done nothing.\<close>

lemma parse_DIEs_empty_result:
  assumes run: "parse_DIEs DIE self = Some (self', calls, Inr ())" and e: "dielist self' = []"
  shows "self' = self \<and> calls = [Call_parse_DIEs] \<and>
         (\<exists>b. cu_boundary self = Inr b \<and> b \<le> cu_die_offset self)"
  using parse_DIEs_sound[OF run]
proof (elim disjE exE conjE)
  fix e' assume "Inr () = (Inl e' :: exn + unit)"
  then show ?thesis by simp
next
  fix b calls' ds
  assume b: "cu_boundary self = Inr b" and c: "calls = Call_parse_DIEs # calls'"
    and w: "walked DIE b (cu_die_offset self) self (self', calls', Inr ()) ds"
  from w have ch: "chain DIE b (cu_die_offset self) self ds = Some (self', calls')"
    and le: "b \<le> cu_die_offset self + sizes ds"
    by (simp_all add: walked_def)
  from chain_nonempty[OF ch] e have "ds = []" by blast
  with ch le b c show ?thesis by simp
qed

section \<open>Walks of the concrete units\<close>

lemma cu0_fields:
  "header cu0 ''unit_length'' = Some 40" "header cu0 ''debug_abbrev_offset'' = Some 7"
  "initial_length_field_size (structs cu0) = 4" "cu_offset cu0 = 0" "cu_die_offset cu0 = 11"
  "dielist cu0 = []" "abbrev_table cu0 = None" "dwarfinfo cu0 = dw0" "stream dw0 = ()"
  by (simp_all add: cu0_def init_def dw0_def)

lemma cu_boundary_cu0: "cu_boundary cu0 = Inr 44"
  by (simp add: cu_boundary_def getitem_def cu0_fields)

lemma cu_header_only_fields:
  "cu_boundary cu_header_only = Inr 11" "cu_die_offset cu_header_only = 11"
  "dielist cu_header_only = []"
  by (simp_all add: cu_header_only_def init_def cu_boundary_def getitem_def)

lemma cu_short_fields:
  "cu_boundary cu_short = Inr 4" "cu_die_offset cu_short = 11" "dielist cu_short = []"
  by (simp_all add: cu_short_def init_def cu_boundary_def getitem_def)


lemma parse_DIEs_dec3_cu0:
  "parse_DIEs dec3 cu0 =
     Some (cu0\<lparr>dielist := [die0 5 ''top'', die0 20 ''child'', die0 8 ''last'']\<rparr>,
           [Call_parse_DIEs, Call_DIE 11 [], Call_DIE 16 [], Call_DIE 36 []], Inr ())"
proof -
  have "chain dec3 44 (cu_die_offset cu0) cu0 [die0 5 ''top'', die0 20 ''child'', die0 8 ''last'']
      = Some (cu0\<lparr>dielist := [die0 5 ''top'', die0 20 ''child'', die0 8 ''last'']\<rparr>,
              [Call_DIE 11 [], Call_DIE 16 [], Call_DIE 36 []])"
    by (simp add: chain.simps cu0_fields dec3_def silent_def entry3_def die0_def)
  from parse_DIEs_complete_ok[OF cu_boundary_cu0 this]
  show ?thesis by (simp add: cu0_fields die0_def)
qed

lemma parse_DIEs_dec_schema_cu0:
  "parse_DIEs dec_schema cu0 =
     Some (cu0\<lparr>abbrev_table := Some 1007,
                dielist := [die0 5 ''top'', die0 20 ''child'', die0 8 ''last'']\<rparr>,
           [Call_parse_DIEs, Call_DIE 11 [Call_get_abbrev_table 7], Call_DIE 16 [],
            Call_DIE 36 []], Inr ())"
proof -
  have "chain dec_schema 44 (cu_die_offset cu0) cu0
          [die0 5 ''top'', die0 20 ''child'', die0 8 ''last'']
      = Some (cu0\<lparr>abbrev_table := Some 1007,
                   dielist := [die0 5 ''top'', die0 20 ''child'', die0 8 ''last'']\<rparr>,
              [Call_DIE 11 [Call_get_abbrev_table 7], Call_DIE 16 [], Call_DIE 36 []])"
    by (simp add: chain.simps dec_schema_def get_abbrev_table_def getitem_def entry3_def
        die0_def cu0_def init_def dw0_def)
  from parse_DIEs_complete_ok[OF cu_boundary_cu0 this]
  show ?thesis by (simp add: cu0_fields die0_def)
qed

lemma parse_DIEs_dec_fail_cu0:
  "parse_DIEs dec_fail cu0 =
     Some (cu0\<lparr>dielist := [die0 5 ''top'']\<rparr>,
           [Call_parse_DIEs, Call_DIE 11 [], Call_DIE 16 []], Inl (Raised ''DecodeError''))"
proof -
  let ?cu1 = "cu0\<lparr>dielist := [die0 5 ''top'']\<rparr>"
  have ch: "chain dec_fail 44 (cu_die_offset cu0) cu0 [die0 5 ''top'']
      = Some (?cu1, [Call_DIE 11 []])"
    by (simp add: chain.simps cu0_fields dec_fail_def silent_def die0_def)
  have e: "dec_fail ?cu1 (stream (dwarfinfo ?cu1)) (cu_die_offset cu0 + sizes [die0 5 ''top''])
      = (?cu1, [], Inl (Raised ''DecodeError''))"
    by (simp add: cu0_fields dec_fail_def silent_def die0_def)
  from parse_DIEs_complete_raise[OF cu_boundary_cu0 ch _ e]
  show ?thesis by (simp add: cu0_fields die0_def)
qed

lemma parse_DIEs_dec_over_cu0:
  "parse_DIEs dec_over cu0 =
     Some (cu0\<lparr>dielist := [die0 5 ''top'', die0 100 ''big'']\<rparr>,
           [Call_parse_DIEs, Call_DIE 11 [], Call_DIE 16 []], Inr ())"
proof -
  have "chain dec_over 44 (cu_die_offset cu0) cu0 [die0 5 ''top'', die0 100 ''big'']
      = Some (cu0\<lparr>dielist := [die0 5 ''top'', die0 100 ''big'']\<rparr>,
              [Call_DIE 11 [], Call_DIE 16 []])"
    by (simp add: chain.simps cu0_fields dec_over_def silent_def die0_def)
  from parse_DIEs_complete_ok[OF cu_boundary_cu0 this]
  show ?thesis by (simp add: cu0_fields die0_def)
qed

lemma parse_DIEs_dec_zero_cu0: "parse_DIEs dec_zero cu0 = None"
proof -
  have top: "dec_zero cu0 (stream (dwarfinfo cu0)) 11 = (cu0, [], Inr (die0 5 ''top''))"
    by (simp add: dec_zero_def silent_def)
  have "parse_loop dec_zero 44 (11 + die_size (die0 5 ''top''))
          (cu0\<lparr>dielist := dielist cu0 @ [die0 5 ''top'']\<rparr>) = None"
    by (rule parse_loop_stuck) (simp_all add: die0_def dec_zero_def silent_def)
  then have "parse_loop dec_zero 44 11 cu0 = None"
    by (simp add: parse_loop_step[where DIE = dec_zero and self = cu0, OF _ top])
  then show ?thesis
    by (simp add: parse_DIEs_def cu_boundary_cu0 cu0_fields)
qed

lemma parse_DIEs_cu_unsized:
  "parse_DIEs DIE cu_unsized = Some (cu_unsized, [Call_parse_DIEs], Inl (KeyError ''unit_length''))"
  by (simp add: parse_DIEs_def cu_boundary_def getitem_def cu_unsized_def init_def)

lemma get_abbrev_table_cu0:
  "get_abbrev_table cu0 =
     (cu0\<lparr>abbrev_table := Some 1007\<rparr>, [Call_get_abbrev_table 7], Inr (Some 1007))"
  by (simp add: get_abbrev_table_def getitem_def cu0_def init_def dw0_def)

lemma get_abbrev_table_cu_none:
  "get_abbrev_table cu_none = (cu_none, [Call_get_abbrev_table 7], Inr None)"
  by (simp add: get_abbrev_table_def getitem_def cu_none_def init_def)

section \<open>What a walk keeps\<close>

lemma set_dielist_same: "dielist self = ds \<Longrightarrow> self\<lparr>dielist := ds\<rparr> = self"
  by auto

lemma set_abbrev_table_same: "abbrev_table self = v \<Longrightarrow> self\<lparr>abbrev_table := v\<rparr> = self"
  by auto

text \<open>
  What a walk keeps: a property of the unit that no append to the list changes, and that
  the constructor keeps.
\<close>

lemma parse_DIEs_keeps:
  assumes run: "parse_DIEs DIE self = Some (self', calls, r)"
    and app: "\<And>c ds. fld (c\<lparr>dielist := ds\<rparr>) = fld c"
    and keeps: "\<And>c s off. fld (fst (DIE c s off)) = fld c"
  shows "fld self' = fld self"
  using parse_DIEs_sound[OF run]
proof (elim disjE exE conjE)
  fix e assume "self' = self"
  then show ?thesis by simp
next
  fix b calls' ds
  assume w: "walked DIE b (cu_die_offset self) self (self', calls', r) ds"
  show ?thesis
  proof (cases r)
    case (Inr x)
    with w have "chain DIE b (cu_die_offset self) self ds = Some (self', calls')"
      by (simp add: walked_def)
    from chain_keeps[where fld = fld, OF app keeps this] show ?thesis .
  next
    case (Inl e)
    with w obtain u cs cs' where ch: "chain DIE b (cu_die_offset self) self ds = Some (u, cs)"
      and D: "DIE u (stream (dwarfinfo u)) (cu_die_offset self + sizes ds) = (self', cs', Inl e)"
      by (auto simp: walked_def)
    from keeps[of u "stream (dwarfinfo u)" "cu_die_offset self + sizes ds"] D
    have "fld self' = fld u" by simp
    with chain_keeps[where fld = fld, OF app keeps ch] show ?thesis by simp
  qed
qed

lemma parse_DIEs_appends:
  assumes run: "parse_DIEs DIE self = Some (self', calls, r)" and leaves: "leaves_dielist DIE"
  shows "\<exists>ds. dielist self' = dielist self @ ds"
  using parse_DIEs_sound[OF run]
proof (elim disjE exE conjE)
  fix e assume "self' = self"
  then show ?thesis by simp
next
  fix b calls' ds
  assume w: "walked DIE b (cu_die_offset self) self (self', calls', r) ds"
  show ?thesis
  proof (cases r)
    case (Inr x)
    with w have "chain DIE b (cu_die_offset self) self ds = Some (self', calls')"
      by (simp add: walked_def)
    from chain_leaves_dielist[OF leaves this] show ?thesis by blast
  next
    case (Inl e)
    with w obtain u cs cs' where ch: "chain DIE b (cu_die_offset self) self ds = Some (u, cs)"
      and D: "DIE u (stream (dwarfinfo u)) (cu_die_offset self + sizes ds) = (self', cs', Inl e)"
      by (auto simp: walked_def)
    from leaves have "dielist (fst (DIE u (stream (dwarfinfo u)) (cu_die_offset self + sizes ds)))
        = dielist u" unfolding leaves_dielist_def by blast
    with D have "dielist self' = dielist u" by simp
    with chain_leaves_dielist[OF leaves ch] show ?thesis by simp
  qed
qed

lemma dec_schema_keeps:
  "header (fst (dec_schema c s off)) = header c"
  "dwarfinfo (fst (dec_schema c s off)) = dwarfinfo c"
  "structs (fst (dec_schema c s off)) = structs c"
  "cu_offset (fst (dec_schema c s off)) = cu_offset c"
  "cu_die_offset (fst (dec_schema c s off)) = cu_die_offset c"
  "dielist (fst (dec_schema c s off)) = dielist c"
  by (simp_all add: dec_schema_def get_abbrev_table_def split: option.splits sum.splits)

section \<open>The claims\<close>

subsection \<open>C1: the scenario of three entries\<close>

text \<open>
  Claim C1. A new unit with \<open>unit_length = 40\<close>, a length prefix of 4 bytes,
  \<open>cu_offset = 0\<close> and \<open>cu_die_offset = 11\<close>, for which the decoder returns entries
  of 5, 20 and 8 bytes at the offsets 11, 16 and 36: the boundary is \<open>0 + 40 + 4 = 44\<close>,
  \<open>_parse_DIEs\<close> returns without an exception, and the list holds exactly the three
  entries, decoded at 11, 16 and 36 in this order. The decoder may make calls of its own
  (\<open>cs1\<close>, \<open>cs2\<close>, \<open>cs3\<close>) and change the unit it is handed, the list apart: the unit
  returned is the one the last constructor call left, with the three entries.
\<close>

theorem parse_DIEs_scenario:
  fixes self :: "('s, 'a, 'p) CompileUnit"
  assumes "self = init hdr dw sts 0 11"
    and "hdr ''unit_length'' = Some 40"
    and "initial_length_field_size sts = 4"
    and "DIE self (stream dw) 11 = (u1, cs1, Inr d1)"
    and "die_size d1 = 5" and "dielist u1 = []"
    and "DIE (u1\<lparr>dielist := [d1]\<rparr>) (stream (dwarfinfo u1)) 16 = (u2, cs2, Inr d2)"
    and "die_size d2 = 20" and "dielist u2 = [d1]"
    and "DIE (u2\<lparr>dielist := [d1, d2]\<rparr>) (stream (dwarfinfo u2)) 36 = (u3, cs3, Inr d3)"
    and "die_size d3 = 8" and "dielist u3 = [d1, d2]"
  shows "cu_boundary self = Inr 44 \<and>
         parse_DIEs DIE self =
           Some (u3\<lparr>dielist := [d1, d2, d3]\<rparr>,
                 [Call_parse_DIEs, Call_DIE 11 cs1, Call_DIE 16 cs2, Call_DIE 36 cs3], Inr ())"
proof -
  have f: "cu_die_offset self = 11" "stream (dwarfinfo self) = stream dw"
    using assms(1) by (simp_all add: init_def)
  have b: "cu_boundary self = Inr 44"
    using assms(1-3) by (simp add: cu_boundary_def getitem_def init_def)
  have c3: "chain DIE 44 (11 + 5 + 20) (u2\<lparr>dielist := [d1, d2]\<rparr>) [d3] =
      Some (u3\<lparr>dielist := [d1, d2, d3]\<rparr>, [Call_DIE 36 cs3])"
    using assms(10,12) by (simp add: chain.simps)
  have c2: "chain DIE 44 (11 + 5) (u1\<lparr>dielist := [d1]\<rparr>) [d2, d3] =
      Some (u3\<lparr>dielist := [d1, d2, d3]\<rparr>, [Call_DIE 16 cs2, Call_DIE 36 cs3])"
    using assms(7,8,9) c3 by (simp add: chain.simps)
  have c1: "chain DIE 44 (cu_die_offset self) self [d1, d2, d3] =
      Some (u3\<lparr>dielist := [d1, d2, d3]\<rparr>, [Call_DIE 11 cs1, Call_DIE 16 cs2, Call_DIE 36 cs3])"
    using assms(4,5,6) f c2 by (simp add: chain.simps)
  have "(44::int) \<le> cu_die_offset self + sizes [d1, d2, d3]"
    using assms(5,8,11) f by simp
  from parse_DIEs_complete_ok[OF b c1 this] b show ?thesis by simp
qed

theorem parse_DIEs_scenario_witness:
  "cu_boundary cu0 = Inr 44 \<and>
   parse_DIEs dec_schema cu0 =
     Some (cu0\<lparr>abbrev_table := Some 1007,
                dielist := [die0 5 ''top'', die0 20 ''child'', die0 8 ''last'']\<rparr>,
           [Call_parse_DIEs, Call_DIE 11 [Call_get_abbrev_table 7], Call_DIE 16 [],
            Call_DIE 36 []], Inr ())"
proof -
  let ?t = "cu0\<lparr>abbrev_table := Some 1007\<rparr>"
  have "cu_boundary cu0 = Inr 44 \<and>
   parse_DIEs dec_schema cu0 =
     Some (?t\<lparr>dielist := [die0 5 ''top'', die0 20 ''child''] \<rparr>
             \<lparr>dielist := [die0 5 ''top'', die0 20 ''child'', die0 8 ''last'']\<rparr>,
           [Call_parse_DIEs, Call_DIE 11 [Call_get_abbrev_table 7], Call_DIE 16 [],
            Call_DIE 36 []], Inr ())"
    by (rule parse_DIEs_scenario[where hdr = "[''unit_length'' \<mapsto> 40, ''debug_abbrev_offset'' \<mapsto> 7]"
          and dw = dw0 and sts = "\<lparr>initial_length_field_size = 4\<rparr>"
          and ?u1.0 = ?t and ?u2.0 = "?t\<lparr>dielist := [die0 5 ''top'']\<rparr>"])
       (simp_all add: cu0_def init_def dw0_def dec_schema_def get_abbrev_table_def getitem_def
          entry3_def die0_def)
  then show ?thesis by simp
qed

subsection \<open>C2: sizes that are not positive or pass the boundary\<close>

text \<open>
  Claim C2 says that an entry reporting a size \<open>n \<le> 0\<close>, or a size with
  \<open>cursor + n > cu_boundary\<close>, makes \<open>_parse_DIEs\<close> fail with TruncatedRecord. It
  does neither. On the unit of the scenario, when the second entry reports size 0 the walk
  never returns; when it reports 100 bytes, and \<open>16 + 100 > 44\<close>, the entry is appended
  and the walk returns without an exception.
\<close>

theorem parse_DIEs_size_check_counterexample:
  "parse_DIEs dec_zero cu0 = None \<and>
   parse_DIEs dec_over cu0 =
     Some (cu0\<lparr>dielist := [die0 5 ''top'', die0 100 ''big'']\<rparr>,
           [Call_parse_DIEs, Call_DIE 11 [], Call_DIE 16 []], Inr ()) \<and>
   16 + die_size (die0 100 ''big'') > (44::int)"
  by (simp add: parse_DIEs_dec_zero_cu0 parse_DIEs_dec_over_cu0 die0_def)

text \<open>
  Claim C2 as amended. The walk does not check the size an entry reports. Whatever the
  size \<open>n\<close>, the entry is appended and the walk goes on from \<open>cursor + n\<close>; if
  \<open>cursor + n\<close> is at or past the boundary the walk ends there without an exception;
  if the decoder reports size 0 at a cursor whatever the unit holds, the walk never
  returns. An exception of \<open>_parse_DIEs\<close> is the \<open>KeyError\<close> of a missing
  \<open>unit_length\<close> or one that the decoder raised.
\<close>

theorem parse_loop_unchecked_size:
  "(off < b \<and> DIE self (stream (dwarfinfo self)) off = (self1, cs, Inr d) \<longrightarrow>
      parse_loop DIE b off self =
        Option.bind
          (parse_loop DIE b (off + die_size d) (self1\<lparr>dielist := dielist self1 @ [d]\<rparr>))
          (\<lambda>(self', calls, r). Some (self', Call_DIE off cs # calls, r))) \<and>
   (off < b \<and> DIE self (stream (dwarfinfo self)) off = (self1, cs, Inr d) \<and>
    b \<le> off + die_size d \<longrightarrow>
      parse_loop DIE b off self =
        Some (self1\<lparr>dielist := dielist self1 @ [d]\<rparr>, [Call_DIE off cs], Inr ())) \<and>
   (off < b \<and> (\<forall>c s. \<exists>u cs d. DIE c s off = (u, cs, Inr d) \<and> die_size d = 0) \<longrightarrow>
      parse_loop DIE b off self = None) \<and>
   (parse_DIEs DIE self = Some (self', calls, Inl e) \<longrightarrow>
      e = KeyError ''unit_length'' \<or>
      (\<exists>c off cs. DIE c (stream (dwarfinfo c)) off = (self', cs, Inl e)))"
  using parse_loop_step[of off b DIE self self1 cs d] parse_loop_last[of off b DIE self self1 cs d]
    parse_loop_stuck[of off b DIE self] parse_DIEs_error_source[of DIE self self' calls e]
  by blast

theorem parse_loop_unchecked_size_witness:
  "parse_loop dec_over 44 16 (cu0\<lparr>dielist := [die0 5 ''top'']\<rparr>) =
     Some (cu0\<lparr>dielist := [die0 5 ''top'', die0 100 ''big'']\<rparr>, [Call_DIE 16 []], Inr ()) \<and>
   parse_loop dec_zero 44 16 (cu0\<lparr>dielist := [die0 5 ''top'']\<rparr>) = None \<and>
   parse_loop dec_zero 44 11 cu0 =
     Option.bind (parse_loop dec_zero 44 16 (cu0\<lparr>dielist := [die0 5 ''top'']\<rparr>))
       (\<lambda>(self', calls, r). Some (self', Call_DIE 11 [] # calls, r)) \<and>
   (\<exists>c off cs. dec_fail c (stream (dwarfinfo c)) off =
      (cu0\<lparr>dielist := [die0 5 ''top'']\<rparr>, cs, Inl (Raised ''DecodeError'')))"
proof -
  let ?cu1 = "cu0\<lparr>dielist := [die0 5 ''top'']\<rparr>"
  have over: "(16::int) < 44 \<and>
      dec_over ?cu1 (stream (dwarfinfo ?cu1)) 16 = (?cu1, [], Inr (die0 100 ''big''))
      \<and> 44 \<le> 16 + die_size (die0 100 ''big'')"
    by (simp add: dec_over_def silent_def die0_def)
  have zero: "(16::int) < 44 \<and>
      (\<forall>c s. \<exists>u cs d. dec_zero c s 16 = (u, cs, Inr d) \<and> die_size d = 0)"
    by (simp add: dec_zero_def silent_def die0_def)
  have step: "(11::int) < 44 \<and>
      dec_zero cu0 (stream (dwarfinfo cu0)) 11 = (cu0, [], Inr (die0 5 ''top''))"
    by (simp add: dec_zero_def silent_def)
  have a: "parse_loop dec_over 44 16 ?cu1 =
      Some (?cu1\<lparr>dielist := dielist ?cu1 @ [die0 100 ''big'']\<rparr>, [Call_DIE 16 []], Inr ())"
    using parse_loop_unchecked_size[of 16 44 dec_over ?cu1 ?cu1 "[]" "die0 100 ''big''"] over
    by blast
  have b: "parse_loop dec_zero 44 16 ?cu1 = None"
    using parse_loop_unchecked_size[of 16 44 dec_zero ?cu1] zero by blast
  have c: "parse_loop dec_zero 44 11 cu0 =
      Option.bind (parse_loop dec_zero 44 (11 + die_size (die0 5 ''top''))
                     (cu0\<lparr>dielist := dielist cu0 @ [die0 5 ''top'']\<rparr>))
        (\<lambda>(self', calls, r). Some (self', Call_DIE 11 [] # calls, r))"
    using parse_loop_unchecked_size[of 11 44 dec_zero cu0 cu0 "[]" "die0 5 ''top''"] step
    by blast
  have d: "Raised ''DecodeError'' = KeyError ''unit_length'' \<or>
      (\<exists>c off cs. dec_fail c (stream (dwarfinfo c)) off =
         (?cu1, cs, Inl (Raised ''DecodeError'')))"
    using parse_loop_unchecked_size[of _ _ dec_fail cu0 _ _ _ ?cu1
        "[Call_parse_DIEs, Call_DIE 11 [], Call_DIE 16 []]" "Raised ''DecodeError''"]
      parse_DIEs_dec_fail_cu0 by blast
  from a b c d show ?thesis by (simp add: cu0_fields die0_def)
qed

subsection \<open>C3: after a failed walk\<close>

text \<open>
  Claim C3 says that a failed walk leaves the cached list unpopulated, so that the next
  indexed access walks again from \<open>cu_die_offset\<close>. It does not when the decoder
  raises after the first entry: the entry decoded before the exception stays in
  \<open>_dielist\<close>, the list is no longer empty, and the next \<open>_get_DIE\<close> answers from
  the partial list without any call.
\<close>

theorem failed_parse_counterexample:
  "parse_DIEs dec_fail cu0 =
     Some (cu0\<lparr>dielist := [die0 5 ''top'']\<rparr>, [Call_parse_DIEs, Call_DIE 11 [], Call_DIE 16 []],
           Inl (Raised ''DecodeError'')) \<and>
   dielist (cu0\<lparr>dielist := [die0 5 ''top'']\<rparr>) \<noteq> [] \<and>
   get_DIE dec_fail (cu0\<lparr>dielist := [die0 5 ''top'']\<rparr>) 0 =
     Some (cu0\<lparr>dielist := [die0 5 ''top'']\<rparr>, [], Inr (die0 5 ''top''))"
  by (simp add: parse_DIEs_dec_fail_cu0 get_DIE_cached list_getitem_def)

text \<open>
  Claim C3 as amended. When \<open>_parse_DIEs\<close> fails on a new unit, the entries appended
  before the exception are not removed: with a decoder that leaves the list to the unit,
  the cached list holds exactly the entries decoded before the exception. If the list is
  empty then, the next indexed access walks again, on the unit as the failure left it
  (and for a decoder that leaves the unit alone it fails in the same way). If the list is
  not empty, the next indexed access does not walk again, whatever the decoder: it
  indexes the partial list.
\<close>

theorem failed_parse_keeps_entries:
  assumes fresh: "dielist self = []"
    and run: "parse_DIEs DIE self = Some (self', calls, Inl e)"
  shows "(leaves_dielist DIE \<longrightarrow>
            (cu_boundary self = Inl e \<and> dielist self' = [] \<or>
             (\<exists>b u cs cs'. cu_boundary self = Inr b \<and>
                chain DIE b (cu_die_offset self) self (dielist self') = Some (u, cs) \<and>
                cu_die_offset self + sizes (dielist self') < b \<and>
                DIE u (stream (dwarfinfo u)) (cu_die_offset self + sizes (dielist self'))
                  = (self', cs', Inl e)))) \<and>
         (dielist self' = [] \<longrightarrow>
            (\<forall>DIE' i. get_DIE DIE' self' i =
               Option.bind (parse_DIEs DIE' self')
                 (\<lambda>(s, cs, r). case r of
                     Inl e \<Rightarrow> Some (s, cs, Inl e)
                   | Inr _ \<Rightarrow> Some (s, cs, list_getitem (dielist s) i))) \<and>
            (\<forall>f i. DIE = silent f \<longrightarrow> get_DIE DIE self' i = Some (self', calls, Inl e))) \<and>
         (dielist self' \<noteq> [] \<longrightarrow>
            (\<forall>DIE' i. get_DIE DIE' self' i = Some (self', [], list_getitem (dielist self') i)))"
proof -
  let ?top = "cu_die_offset self"
  have src: "leaves_dielist DIE \<longrightarrow>
      (cu_boundary self = Inl e \<and> dielist self' = [] \<or>
       (\<exists>b u cs cs'. cu_boundary self = Inr b \<and>
          chain DIE b ?top self (dielist self') = Some (u, cs) \<and>
          ?top + sizes (dielist self') < b \<and>
          DIE u (stream (dwarfinfo u)) (?top + sizes (dielist self')) = (self', cs', Inl e)))"
  proof
    assume leaves: "leaves_dielist DIE"
    from parse_DIEs_sound[OF run]
    show "cu_boundary self = Inl e \<and> dielist self' = [] \<or>
       (\<exists>b u cs cs'. cu_boundary self = Inr b \<and>
          chain DIE b ?top self (dielist self') = Some (u, cs) \<and>
          ?top + sizes (dielist self') < b \<and>
          DIE u (stream (dwarfinfo u)) (?top + sizes (dielist self')) = (self', cs', Inl e))"
    proof (elim disjE exE conjE)
      fix e' assume "cu_boundary self = Inl e'" "self' = self" "Inl e = (Inl e' :: exn + unit)"
      with fresh show ?thesis by simp
    next
      fix b calls' ds
      assume b: "cu_boundary self = Inr b"
        and w: "walked DIE b ?top self (self', calls', Inl e) ds"
      from w obtain u cs cs' where ch: "chain DIE b ?top self ds = Some (u, cs)"
        and lt: "?top + sizes ds < b"
        and D: "DIE u (stream (dwarfinfo u)) (?top + sizes ds) = (self', cs', Inl e)"
        by (auto simp: walked_def)
      from leaves have "dielist (fst (DIE u (stream (dwarfinfo u)) (?top + sizes ds)))
          = dielist u" unfolding leaves_dielist_def by blast
      with D have "dielist self' = dielist u" by simp
      with chain_leaves_dielist[OF leaves ch] fresh have "dielist self' = ds" by simp
      with b ch lt D show ?thesis by blast
    qed
  qed
  have again: "dielist self' = [] \<longrightarrow>
      (\<forall>DIE' i. get_DIE DIE' self' i =
         Option.bind (parse_DIEs DIE' self')
           (\<lambda>(s, cs, r). case r of
               Inl e \<Rightarrow> Some (s, cs, Inl e)
             | Inr _ \<Rightarrow> Some (s, cs, list_getitem (dielist s) i)))"
    by (simp add: get_DIE_def)
  have same: "dielist self' = [] \<longrightarrow>
      (\<forall>f i. DIE = silent f \<longrightarrow> get_DIE DIE self' i = Some (self', calls, Inl e))"
  proof (intro impI allI)
    fix f i assume emp: "dielist self' = []" and f: "DIE = silent f"
    have "self' = self"
      using parse_DIEs_sound[OF run]
    proof (elim disjE exE conjE)
      fix e' assume "self' = self"
      then show ?thesis .
    next
      fix b calls' ds
      assume w: "walked DIE b ?top self (self', calls', Inl e) ds"
      from w obtain u cs cs' where ch: "chain DIE b ?top self ds = Some (u, cs)"
        and D: "DIE u (stream (dwarfinfo u)) (?top + sizes ds) = (self', cs', Inl e)"
        by (auto simp: walked_def)
      from D have "self' = u" unfolding f by (simp add: silent_def)
      with chain_silent[OF ch[unfolded f]] have s: "self' = self\<lparr>dielist := dielist self @ ds\<rparr>"
        by simp
      then have "dielist self' = dielist self @ ds" by simp
      with emp fresh have "ds = []" by simp
      with s fresh show ?thesis by (simp add: set_dielist_same)
    qed
    with run have "parse_DIEs DIE self' = Some (self', calls, Inl e)" by simp
    from get_DIE_parse[OF emp this] show "get_DIE DIE self' i = Some (self', calls, Inl e)"
      by simp
  qed
  have cached: "dielist self' \<noteq> [] \<longrightarrow>
      (\<forall>DIE' i. get_DIE DIE' self' i = Some (self', [], list_getitem (dielist self') i))"
    by (simp add: get_DIE_cached)
  from src again same cached show ?thesis by blast
qed

theorem failed_parse_keeps_entries_witness:
  "dielist cu0 = [] \<and> leaves_dielist dec_fail \<and>
   get_DIE dec3 (cu0\<lparr>dielist := [die0 5 ''top'']\<rparr>) 0 =
     Some (cu0\<lparr>dielist := [die0 5 ''top'']\<rparr>, [], Inr (die0 5 ''top'')) \<and>
   dielist cu_unsized = [] \<and>
   get_DIE dec_fail cu_unsized 0 =
     Some (cu_unsized, [Call_parse_DIEs], Inl (KeyError ''unit_length''))"
proof -
  let ?cu1 = "cu0\<lparr>dielist := [die0 5 ''top'']\<rparr>"
  have lv: "leaves_dielist dec_fail" unfolding dec_fail_def by (rule silent_leaves_dielist)
  have ne: "dielist ?cu1 \<noteq> []" by simp
  from failed_parse_keeps_entries[OF cu0_fields(6) parse_DIEs_dec_fail_cu0] ne
  have "\<forall>DIE' i. get_DIE DIE' ?cu1 i = Some (?cu1, [], list_getitem (dielist ?cu1) i)"
    by blast
  then have a: "get_DIE dec3 ?cu1 0 = Some (?cu1, [], Inr (die0 5 ''top''))"
    by (simp add: list_getitem_def)
  have f: "dielist cu_unsized = []" by (simp add: cu_unsized_def init_def)
  from failed_parse_keeps_entries[OF f parse_DIEs_cu_unsized[of dec_fail]] f
  have "\<forall>g i. dec_fail = silent g \<longrightarrow> get_DIE dec_fail cu_unsized i =
      Some (cu_unsized, [Call_parse_DIEs], Inl (KeyError ''unit_length''))"
    by blast
  then have d: "get_DIE dec_fail cu_unsized 0 =
      Some (cu_unsized, [Call_parse_DIEs], Inl (KeyError ''unit_length''))"
    unfolding dec_fail_def by blast
  from a d f lv cu0_fields(6) show ?thesis by simp
qed

subsection \<open>C4: the cached fields are computed once\<close>

text \<open>
  Claim C4 says that after a first successful computation no indexed access walks
  again. For the unit that is a header only, \<open>_parse_DIEs\<close> returns without an
  exception and leaves the list empty, which \<open>_get_DIE\<close> reads as not yet parsed:
  the next indexed access calls \<open>_parse_DIEs\<close> again, and so does every later one.
\<close>

theorem memoized_once_counterexample:
  "parse_DIEs dec3 cu_header_only = Some (cu_header_only, [Call_parse_DIEs], Inr ()) \<and>
   get_DIE dec3 cu_header_only 0 = Some (cu_header_only, [Call_parse_DIEs], Inl IndexError)"
proof -
  have run: "parse_DIEs dec3 cu_header_only = Some (cu_header_only, [Call_parse_DIEs], Inr ())"
    by (rule parse_DIEs_nothing[OF cu_header_only_fields(1)]) (simp add: cu_header_only_fields)
  from get_DIE_parse[OF cu_header_only_fields(3) run, of 0] run show ?thesis
    by (simp add: cu_header_only_fields list_getitem_def)
qed

text \<open>
  Claim C4 as amended, one sentence for each conjunct of the theorem.
  A \<open>get_abbrev_table\<close> on an empty cache to which the resolver returns a table calls
  the resolver exactly once, and a second call returns the same table without a call and
  without a change. Once a table is cached, \<open>get_abbrev_table\<close> returns it, calls nothing
  and changes nothing. A \<open>None\<close> returned by the resolver is not remembered: the unit is
  as it was, so the next call asks the resolver again. An indexed access on an empty list
  calls \<open>_parse_DIEs\<close> exactly once, and if it returns an entry the list is not empty
  afterwards. Once the list is not empty, every indexed access answers from it, calls
  nothing and changes nothing, whatever the decoder, and \<open>get_abbrev_table\<close> neither
  walks, nor decodes, nor changes the list. A walk that returns without an exception and
  leaves the list empty is not remembered: every indexed access after it, at any index and
  with any decoder, calls \<open>_parse_DIEs\<close> again and raises \<open>IndexError\<close>.
\<close>

theorem memoized_once:
  fixes self :: "('s, 'a, 'p) CompileUnit"
  shows
  "(abbrev_table self = None \<and> get_abbrev_table self = (self1, calls1, Inr (Some t)) \<longrightarrow>
      (\<exists>off. calls1 = [Call_get_abbrev_table off]) \<and>
      get_abbrev_table self1 = (self1, [], Inr (Some t))) \<and>
   (abbrev_table self = Some t \<longrightarrow> get_abbrev_table self = (self, [], Inr (Some t))) \<and>
   (abbrev_table self = None \<and> get_abbrev_table self = (self1, calls1, Inr None) \<longrightarrow>
      self1 = self \<and> (\<exists>off. calls1 = [Call_get_abbrev_table off])) \<and>
   (dielist self = [] \<and> get_DIE DIE self i = Some (self2, calls2, r) \<longrightarrow>
      count_list calls2 Call_parse_DIEs = 1 \<and> (\<forall>d. r = Inr d \<longrightarrow> dielist self2 \<noteq> [])) \<and>
   (dielist self \<noteq> [] \<longrightarrow>
      (\<forall>DIE' j. get_DIE DIE' self j = Some (self, [], list_getitem (dielist self) j)) \<and>
      (\<forall>self' calls r'. get_abbrev_table self = (self', calls, r') \<longrightarrow>
         dielist self' = dielist self \<and> Call_parse_DIEs \<notin> set calls \<and>
         (\<forall>off cs. Call_DIE off cs \<notin> set calls))) \<and>
   (parse_DIEs DIE self = Some (self3, calls3, Inr ()) \<and> dielist self3 = [] \<longrightarrow>
      (\<forall>DIE' j. get_DIE DIE' self3 j = Some (self3, [Call_parse_DIEs], Inl IndexError)))"
proof -
  have schema_first:
    "abbrev_table self = None \<and> get_abbrev_table self = (self1, calls1, Inr (Some t)) \<longrightarrow>
      (\<exists>off. calls1 = [Call_get_abbrev_table off]) \<and>
      get_abbrev_table self1 = (self1, [], Inr (Some t))"
    by (auto simp: get_abbrev_table_def split: sum.splits)
  have schema_cached:
    "abbrev_table self = Some t \<longrightarrow> get_abbrev_table self = (self, [], Inr (Some t))"
    by (simp add: get_abbrev_table_def)
  have schema_none:
    "abbrev_table self = None \<and> get_abbrev_table self = (self1, calls1, Inr None) \<longrightarrow>
      self1 = self \<and> (\<exists>off. calls1 = [Call_get_abbrev_table off])"
    by (auto simp: get_abbrev_table_def set_abbrev_table_same split: sum.splits)
  have list_first: "dielist self = [] \<and> get_DIE DIE self i = Some (self2, calls2, r) \<longrightarrow>
      count_list calls2 Call_parse_DIEs = 1 \<and> (\<forall>d. r = Inr d \<longrightarrow> dielist self2 \<noteq> [])"
  proof
    assume a: "dielist self = [] \<and> get_DIE DIE self i = Some (self2, calls2, r)"
    then obtain r' where p: "parse_DIEs DIE self = Some (self2, calls2, r')"
      and r: "r = (case r' of Inl e \<Rightarrow> Inl e | Inr _ \<Rightarrow> list_getitem (dielist self2) i)"
      by (blast elim: get_DIE_parseE)
    have "\<forall>d. r = Inr d \<longrightarrow> dielist self2 \<noteq> []"
    proof (intro allI impI)
      fix d assume "r = Inr d"
      with r have "list_getitem (dielist self2) i = Inr d" by (cases r') simp_all
      then show "dielist self2 \<noteq> []" by (auto simp: list_getitem_eq split: if_splits)
    qed
    with parse_DIEs_once[OF p]
    show "count_list calls2 Call_parse_DIEs = 1 \<and> (\<forall>d. r = Inr d \<longrightarrow> dielist self2 \<noteq> [])" ..
  qed
  have list_cached: "dielist self \<noteq> [] \<longrightarrow>
      (\<forall>DIE' j. get_DIE DIE' self j = Some (self, [], list_getitem (dielist self) j))"
    by (simp add: get_DIE_cached)
  have list_kept: "\<forall>self' calls r'. get_abbrev_table self = (self', calls, r') \<longrightarrow>
         dielist self' = dielist self \<and> Call_parse_DIEs \<notin> set calls \<and>
         (\<forall>off cs. Call_DIE off cs \<notin> set calls)"
    by (auto simp: get_abbrev_table_def split: option.splits sum.splits)
  have forgotten: "parse_DIEs DIE self = Some (self3, calls3, Inr ()) \<and> dielist self3 = [] \<longrightarrow>
      (\<forall>DIE' j. get_DIE DIE' self3 j = Some (self3, [Call_parse_DIEs], Inl IndexError))"
  proof (intro impI allI)
    fix DIE' :: "('s, 'a, 'p) decoder" and j
    assume a: "parse_DIEs DIE self = Some (self3, calls3, Inr ()) \<and> dielist self3 = []"
    then have run: "parse_DIEs DIE self = Some (self3, calls3, Inr ())"
      and emp: "dielist self3 = []" by simp_all
    from parse_DIEs_empty_result[OF run emp] obtain b where "self3 = self"
      and b: "cu_boundary self = Inr b" "b \<le> cu_die_offset self" by blast
    then have "parse_DIEs DIE' self3 = Some (self3, [Call_parse_DIEs], Inr ())"
      by (simp add: parse_DIEs_nothing)
    from get_DIE_parse[OF emp this, of j] emp
    show "get_DIE DIE' self3 j = Some (self3, [Call_parse_DIEs], Inl IndexError)"
      by (simp add: list_getitem_def)
  qed
  from schema_first schema_cached schema_none list_first list_cached list_kept forgotten
  show ?thesis by blast
qed

theorem memoized_once_witness:
  "abbrev_table cu0 = None \<and>
   get_abbrev_table cu0 =
     (cu0\<lparr>abbrev_table := Some 1007\<rparr>, [Call_get_abbrev_table 7], Inr (Some 1007)) \<and>
   get_abbrev_table (cu0\<lparr>abbrev_table := Some 1007\<rparr>) =
     (cu0\<lparr>abbrev_table := Some 1007\<rparr>, [], Inr (Some 1007)) \<and>
   abbrev_table cu_none = None \<and>
   get_abbrev_table cu_none = (cu_none, [Call_get_abbrev_table 7], Inr None) \<and>
   dielist cu0 = [] \<and>
   get_DIE dec_schema cu0 0 =
     Some (cu0\<lparr>abbrev_table := Some 1007,
                dielist := [die0 5 ''top'', die0 20 ''child'', die0 8 ''last'']\<rparr>,
           [Call_parse_DIEs, Call_DIE 11 [Call_get_abbrev_table 7], Call_DIE 16 [],
            Call_DIE 36 []], Inr (die0 5 ''top'')) \<and>
   count_list [Call_parse_DIEs, Call_DIE 11 [Call_get_abbrev_table 7], Call_DIE 16 [],
               Call_DIE 36 []] Call_parse_DIEs = 1 \<and>
   get_DIE dec_fail (cu0\<lparr>dielist := [die0 5 ''top'', die0 20 ''child'', die0 8 ''last'']\<rparr>) 1 =
     Some (cu0\<lparr>dielist := [die0 5 ''top'', die0 20 ''child'', die0 8 ''last'']\<rparr>, [],
           Inr (die0 20 ''child'')) \<and>
   dielist cu_header_only = [] \<and>
   get_DIE dec_schema cu_header_only 5 =
     Some (cu_header_only, [Call_parse_DIEs], Inl IndexError)"
proof -
  let ?cu3 = "cu0\<lparr>dielist := [die0 5 ''top'', die0 20 ''child'', die0 8 ''last'']\<rparr>"
  let ?cu3t = "cu0\<lparr>abbrev_table := Some 1007,
                   dielist := [die0 5 ''top'', die0 20 ''child'', die0 8 ''last'']\<rparr>"
  let ?cut = "cu0\<lparr>abbrev_table := Some 1007\<rparr>"
  let ?calls = "[Call_parse_DIEs, Call_DIE 11 [Call_get_abbrev_table 7], Call_DIE 16 [],
                 Call_DIE 36 []]"
  have g0: "get_DIE dec_schema cu0 0 = Some (?cu3t, ?calls, Inr (die0 5 ''top''))"
    using get_DIE_parse[OF cu0_fields(6) parse_DIEs_dec_schema_cu0, of 0]
    by (simp add: list_getitem_def)
  have a: "get_abbrev_table ?cut = (?cut, [], Inr (Some 1007))"
    using memoized_once[of cu0 ?cut "[Call_get_abbrev_table 7]" 1007]
      cu0_fields(7) get_abbrev_table_cu0 by blast
  have t: "abbrev_table ?cut = Some 1007" by simp
  have a2: "get_abbrev_table ?cut = (?cut, [], Inr (Some 1007))"
    using memoized_once[of ?cut _ _ 1007] t by blast
  have n: "abbrev_table cu_none = None" by (simp add: cu_none_def init_def)
  have a3: "\<exists>off. [Call_get_abbrev_table 7] = [Call_get_abbrev_table off]"
    using memoized_once[of cu_none cu_none "[Call_get_abbrev_table 7]"]
      n get_abbrev_table_cu_none by blast
  have b: "count_list ?calls Call_parse_DIEs = 1"
    using memoized_once[of cu0 _ _ _ dec_schema 0 ?cu3t ?calls "Inr (die0 5 ''top'')"]
      cu0_fields(6) g0 by blast
  have ne: "dielist ?cu3 \<noteq> []" by simp
  have c: "get_DIE dec_fail ?cu3 1 = Some (?cu3, [], list_getitem (dielist ?cu3) 1)"
    using memoized_once[of ?cu3] ne by blast
  have l: "list_getitem (dielist ?cu3) 1 = Inr (die0 20 ''child'')"
    by (simp add: list_getitem_def)
  have run: "parse_DIEs dec3 cu_header_only = Some (cu_header_only, [Call_parse_DIEs], Inr ())"
    by (rule parse_DIEs_nothing[OF cu_header_only_fields(1)]) (simp add: cu_header_only_fields)
  have d: "get_DIE dec_schema cu_header_only 5 =
      Some (cu_header_only, [Call_parse_DIEs], Inl IndexError)"
    using memoized_once[of cu_header_only _ _ _ dec3 _ _ _ _ cu_header_only "[Call_parse_DIEs]"]
      run cu_header_only_fields(3) by blast
  from a a2 a3 b c l d g0 n cu0_fields(6,7) get_abbrev_table_cu0 get_abbrev_table_cu_none
    cu_header_only_fields(3)
  show ?thesis by simp
qed

subsection \<open>C5: the entries tile the unit\<close>



subsection \<open>C6: the walk returns\<close>



subsection \<open>C7: a unit without extent\<close>

text \<open>
  Claim C7 says that \<open>_parse_DIEs\<close> fails with CorruptUnit when the boundary is not
  past the offset of the top entry. It does not: for the unit that is a header only, the
  boundary is 11, the top entry would begin at 11, and the walk returns without an
  exception.
\<close>

theorem parse_DIEs_empty_extent_counterexample:
  "cu_boundary cu_header_only = Inr 11 \<and> cu_die_offset cu_header_only = 11 \<and>
   parse_DIEs dec3 cu_header_only = Some (cu_header_only, [Call_parse_DIEs], Inr ()) \<and>
   parse_DIEs dec3 cu_header_only \<noteq> Some (cu_header_only, [Call_parse_DIEs], Inl CorruptUnit)"
  by (simp add: cu_header_only_fields parse_DIEs_nothing[OF cu_header_only_fields(1)])

text \<open>
  Claim C7 as amended. If \<open>cu_boundary \<le> cu_die_offset\<close> then \<open>_parse_DIEs\<close>
  returns without an exception: the loop body never runs, the decoder is not called and
  the unit, with its list, is as it was.
\<close>

theorem parse_DIEs_empty_extent:
  assumes "cu_boundary self = Inr b" and "b \<le> cu_die_offset self"
  shows "parse_DIEs DIE self = Some (self, [Call_parse_DIEs], Inr ())"
  using assms by (simp add: parse_DIEs_def parse_loop_done)

theorem parse_DIEs_empty_extent_witness:
  "cu_boundary cu_short = Inr 4 \<and> 4 \<le> cu_die_offset cu_short \<and>
   parse_DIEs dec3 cu_short = Some (cu_short, [Call_parse_DIEs], Inr ())"
proof -
  have le: "4 \<le> cu_die_offset cu_short" by (simp add: cu_short_fields)
  from parse_DIEs_empty_extent[OF cu_short_fields(1) le] cu_short_fields(1) le
  show ?thesis by simp
qed

subsection \<open>C8: the index\<close>

text \<open>
  Claim C8 says that every index outside \<open>[0, L)\<close> fails. Python counts a negative
  index from the end of the list: on the three entries of the scenario, index \<open>-1\<close>
  returns the last one.
\<close>

theorem get_DIE_index_counterexample:
  "parse_DIEs dec3 cu0 =
     Some (cu0\<lparr>dielist := [die0 5 ''top'', die0 20 ''child'', die0 8 ''last'']\<rparr>,
           [Call_parse_DIEs, Call_DIE 11 [], Call_DIE 16 [], Call_DIE 36 []], Inr ()) \<and>
   get_DIE dec3 (cu0\<lparr>dielist := [die0 5 ''top'', die0 20 ''child'', die0 8 ''last'']\<rparr>) (- 1) =
     Some (cu0\<lparr>dielist := [die0 5 ''top'', die0 20 ''child'', die0 8 ''last'']\<rparr>, [],
           Inr (die0 8 ''last''))"
  by (simp add: parse_DIEs_dec3_cu0 get_DIE_cached list_getitem_def)

text \<open>
  Claim C8 as amended. For a unit whose list has been materialized, of length \<open>L\<close>,
  indexed access raises \<open>IndexError\<close> (IndexOutOfRange) exactly for the indices
  \<open>i \<ge> L\<close> and \<open>i < -L\<close>; an index in \<open>[-L, L)\<close> returns an entry, a negative
  one counted from the end; and index 0 returns the first entry whenever the list is not
  empty.
\<close>

theorem get_DIE_index:
  assumes fresh: "dielist self0 = []"
    and run: "parse_DIEs DIE self0 = Some (self, calls, Inr ())"
  shows "(\<exists>calls'. get_DIE DIE self i =
            Some (self, calls',
              if - int (length (dielist self)) \<le> i \<and> i < int (length (dielist self))
              then Inr (dielist self ! nat (if i < 0 then i + int (length (dielist self)) else i))
              else Inl IndexError)) \<and>
         (dielist self \<noteq> [] \<longrightarrow> get_DIE DIE self 0 = Some (self, [], Inr (dielist self ! 0)))"
proof (cases "dielist self = []")
  case True
  from parse_DIEs_empty_result[OF run True] have "self = self0" by blast
  with run have "parse_DIEs DIE self = Some (self, calls, Inr ())" by simp
  from get_DIE_parse[OF True this, of i] True show ?thesis
    by (auto simp: list_getitem_eq)
next
  case False
  then have "get_DIE DIE self i = Some (self, [], list_getitem (dielist self) i)"
    and "get_DIE DIE self 0 = Some (self, [], list_getitem (dielist self) 0)"
    by (rule get_DIE_cached)+
  with False show ?thesis by (simp add: list_getitem_eq)
qed

theorem get_DIE_index_witness:
  "dielist cu0 = [] \<and>
   (\<exists>calls'. get_DIE dec3 (cu0\<lparr>dielist := [die0 5 ''top'', die0 20 ''child'', die0 8 ''last'']\<rparr>) 3
      = Some (cu0\<lparr>dielist := [die0 5 ''top'', die0 20 ''child'', die0 8 ''last'']\<rparr>, calls',
              Inl IndexError)) \<and>
   (\<exists>calls'. get_DIE dec3 (cu0\<lparr>dielist := [die0 5 ''top'', die0 20 ''child'', die0 8 ''last'']\<rparr>) (- 3)
      = Some (cu0\<lparr>dielist := [die0 5 ''top'', die0 20 ''child'', die0 8 ''last'']\<rparr>, calls',
              Inr (die0 5 ''top''))) \<and>
   get_DIE dec3 (cu0\<lparr>dielist := [die0 5 ''top'', die0 20 ''child'', die0 8 ''last'']\<rparr>) 0
      = Some (cu0\<lparr>dielist := [die0 5 ''top'', die0 20 ''child'', die0 8 ''last'']\<rparr>, [],
              Inr (die0 5 ''top''))"
  using get_DIE_index[OF cu0_fields(6) parse_DIEs_dec3_cu0, of 3]
    get_DIE_index[OF cu0_fields(6) parse_DIEs_dec3_cu0, of "- 3"] cu0_fields(6)
  by simp

subsection \<open>C9: header lookup\<close>

text \<open>
  Claim C9. \<open>__getitem__\<close> returns the value the header holds for a name, and raises
  \<open>KeyError\<close> (MissingField) for a name the header does not hold; no default is
  substituted.
\<close>

theorem getitem_lookup:
  "(header self name = Some v \<longrightarrow> getitem self name = Inr v) \<and>
   (name \<notin> dom (header self) \<longrightarrow> getitem self name = Inl (KeyError name))"
  by (simp add: getitem_def domIff)

theorem getitem_lookup_witness:
  "header cu0 ''unit_length'' = Some 40 \<and> getitem cu0 ''unit_length'' = Inr 40 \<and>
   ''version'' \<notin> dom (header cu0) \<and> getitem cu0 ''version'' = Inl (KeyError ''version'')"
proof -
  have absent: "''version'' \<notin> dom (header cu0)"
    by (simp add: cu0_def init_def)
  from getitem_lookup[of cu0 "''unit_length''" 40] getitem_lookup[of cu0 "''version''"]
    cu0_fields(1) absent
  show ?thesis by simp
qed

subsection \<open>C10: the frame of the walk\<close>

text \<open>
  Claim C10 says that the walk leaves the cached abbreviation table, with the other
  fields, as it was. The walk hands the unit to the constructor of each entry, and a
  constructor that requests the abbreviation table of its unit fills the cache: on the
  unit of the scenario the table is absent before the walk and present after it.
\<close>

theorem parse_DIEs_frame_counterexample:
  "abbrev_table cu0 = None \<and>
   parse_DIEs dec_schema cu0 =
     Some (cu0\<lparr>abbrev_table := Some 1007,
                dielist := [die0 5 ''top'', die0 20 ''child'', die0 8 ''last'']\<rparr>,
           [Call_parse_DIEs, Call_DIE 11 [Call_get_abbrev_table 7], Call_DIE 16 [],
            Call_DIE 36 []], Inr ()) \<and>
   abbrev_table (cu0\<lparr>abbrev_table := Some 1007,
                      dielist := [die0 5 ''top'', die0 20 ''child'', die0 8 ''last'']\<rparr>)
     \<noteq> abbrev_table cu0"
  by (simp add: parse_DIEs_dec_schema_cu0 cu0_fields)

text \<open>
  Claim C10 as amended. The statements of \<open>_parse_DIEs\<close> change nothing but the list,
  to which they append. Whenever \<open>_parse_DIEs\<close> returns, with or without an exception,
  each of the context, the header, the structs, \<open>cu_offset\<close>, \<open>cu_die_offset\<close> and
  the cached abbreviation table is what it was before, provided the constructor leaves
  that field as it finds it; and if the constructor leaves the list alone, the list after
  the walk is the list before it with entries appended.
\<close>

theorem parse_DIEs_frame:
  assumes run: "parse_DIEs DIE self = Some (self', calls, r)"
  shows "((\<forall>c s off. dwarfinfo (fst (DIE c s off)) = dwarfinfo c) \<longrightarrow>
            dwarfinfo self' = dwarfinfo self) \<and>
         ((\<forall>c s off. header (fst (DIE c s off)) = header c) \<longrightarrow> header self' = header self) \<and>
         ((\<forall>c s off. structs (fst (DIE c s off)) = structs c) \<longrightarrow>
            structs self' = structs self) \<and>
         ((\<forall>c s off. cu_offset (fst (DIE c s off)) = cu_offset c) \<longrightarrow>
            cu_offset self' = cu_offset self) \<and>
         ((\<forall>c s off. cu_die_offset (fst (DIE c s off)) = cu_die_offset c) \<longrightarrow>
            cu_die_offset self' = cu_die_offset self) \<and>
         ((\<forall>c s off. abbrev_table (fst (DIE c s off)) = abbrev_table c) \<longrightarrow>
            abbrev_table self' = abbrev_table self) \<and>
         ((\<forall>c s off. dielist (fst (DIE c s off)) = dielist c) \<longrightarrow>
            (\<exists>ds. dielist self' = dielist self @ ds))"
proof (intro conjI impI)
  assume "\<forall>c s off. dwarfinfo (fst (DIE c s off)) = dwarfinfo c"
  then show "dwarfinfo self' = dwarfinfo self"
    by (intro parse_DIEs_keeps[where fld = dwarfinfo, OF run]) simp_all
next
  assume "\<forall>c s off. header (fst (DIE c s off)) = header c"
  then show "header self' = header self"
    by (intro parse_DIEs_keeps[where fld = header, OF run]) simp_all
next
  assume "\<forall>c s off. structs (fst (DIE c s off)) = structs c"
  then show "structs self' = structs self"
    by (intro parse_DIEs_keeps[where fld = structs, OF run]) simp_all
next
  assume "\<forall>c s off. cu_offset (fst (DIE c s off)) = cu_offset c"
  then show "cu_offset self' = cu_offset self"
    by (intro parse_DIEs_keeps[where fld = cu_offset, OF run]) simp_all
next
  assume "\<forall>c s off. cu_die_offset (fst (DIE c s off)) = cu_die_offset c"
  then show "cu_die_offset self' = cu_die_offset self"
    by (intro parse_DIEs_keeps[where fld = cu_die_offset, OF run]) simp_all
next
  assume "\<forall>c s off. abbrev_table (fst (DIE c s off)) = abbrev_table c"
  then show "abbrev_table self' = abbrev_table self"
    by (intro parse_DIEs_keeps[where fld = abbrev_table, OF run]) simp_all
next
  assume "\<forall>c s off. dielist (fst (DIE c s off)) = dielist c"
  then have "leaves_dielist DIE" by (simp add: leaves_dielist_def)
  from parse_DIEs_appends[OF run this] show "\<exists>ds. dielist self' = dielist self @ ds" .
qed

theorem parse_DIEs_frame_witness:
  "header (cu0\<lparr>abbrev_table := Some 1007,
                dielist := [die0 5 ''top'', die0 20 ''child'', die0 8 ''last'']\<rparr>) = header cu0 \<and>
   cu_die_offset (cu0\<lparr>abbrev_table := Some 1007,
                dielist := [die0 5 ''top'', die0 20 ''child'', die0 8 ''last'']\<rparr>) = 11 \<and>
   dwarfinfo (cu0\<lparr>abbrev_table := Some 1007,
                dielist := [die0 5 ''top'', die0 20 ''child'', die0 8 ''last'']\<rparr>) = dw0 \<and>
   structs (cu0\<lparr>abbrev_table := Some 1007,
                dielist := [die0 5 ''top'', die0 20 ''child'', die0 8 ''last'']\<rparr>) = structs cu0 \<and>
   cu_offset (cu0\<lparr>abbrev_table := Some 1007,
                dielist := [die0 5 ''top'', die0 20 ''child'', die0 8 ''last'']\<rparr>) = 0 \<and>
   abbrev_table (cu0\<lparr>dielist := [die0 5 ''top'']\<rparr>) = None \<and>
   (\<exists>ds. dielist (cu0\<lparr>dielist := [die0 5 ''top'']\<rparr>) = dielist cu0 @ ds)"
proof -
  let ?cu3 = "cu0\<lparr>abbrev_table := Some 1007,
                dielist := [die0 5 ''top'', die0 20 ''child'', die0 8 ''last'']\<rparr>"
  let ?cu1 = "cu0\<lparr>dielist := [die0 5 ''top'']\<rparr>"
  have a: "header ?cu3 = header cu0" "cu_die_offset ?cu3 = cu_die_offset cu0"
    "dwarfinfo ?cu3 = dwarfinfo cu0" "structs ?cu3 = structs cu0" "cu_offset ?cu3 = cu_offset cu0"
    using parse_DIEs_frame[OF parse_DIEs_dec_schema_cu0] dec_schema_keeps by blast+
  have k: "\<forall>c s off. abbrev_table (fst (dec_fail c s off)) = abbrev_table c"
    "\<forall>c s off. dielist (fst (dec_fail c s off)) = dielist c"
    by (simp_all add: dec_fail_def silent_def)
  have b: "abbrev_table ?cu1 = abbrev_table cu0" "\<exists>ds. dielist ?cu1 = dielist cu0 @ ds"
    using parse_DIEs_frame[OF parse_DIEs_dec_fail_cu0] k by blast+
  from a b show ?thesis by (simp add: cu0_fields)
qed

end
